theory Spec2Isabelle
  imports Complex_Main "HOL-Library.Signed_Division" "HOL-Library.While_Combinator"
    "HOL-Library.Log_Nat"
begin

section \<open>Resistor colour-code converter of \<open>funcs.c\<close>\<close>

text \<open>
  The calculator works on C \<open>double\<close> values, taken as IEEE 754 binary64 with rounding to
  nearest, ties to even. A \<open>double\<close> is the real number it stands for.

  The encoder is modelled with that rounding (\<open>double_round\<close>): its table entries \<open>0.1\<close> and
  \<open>0.01\<close> are the doubles nearest to one tenth and one hundredth, and its product is the
  rounded product.

  The decoder is read in exact arithmetic: its divisions and multiplications by ten and
  its addition of one half are taken without rounding. The program rounds each of them, so
  the two differ where a rounding crosses one of the decoder's comparisons or the
  conversion to \<open>int\<close> (in \<open>double\<close>, 0.49999999999999994 + 0.5 is 1.0). The theorems on
  particular resistances are at resistances where the program's result is the one
  computed here.

  A C \<open>int\<close> is a mathematical integer together with the range of a 32-bit \<open>int\<close>;
  the one place where the range matters, the conversion of a \<open>double\<close> to \<open>int\<close>,
  checks it.
\<close>

subsection \<open>C values\<close>

datatype c_error =
  IntConversionOutOfRange  \<comment> \<open>\<open>(int) x\<close> with \<open>x\<close> outside the range of \<open>int\<close>: undefined in C\<close>
  | IndexOutOfBounds       \<comment> \<open>a read outside a table: undefined in C\<close>

definition INT_MAX :: int where
  "INT_MAX = 2147483647"

definition INT_MIN :: int where
  "INT_MIN = - 2147483648"

text \<open>
  \<open>(int) x\<close> discards the fractional part of \<open>x\<close> (truncation toward zero). The result is
  defined only when the truncated value is an \<open>int\<close>.
\<close>

definition double_to_int :: "real \<Rightarrow> c_error + int" where
  "double_to_int x =
     (let t = (if 0 \<le> x then \<lfloor>x\<rfloor> else \<lceil>x\<rceil>)
      in if INT_MIN \<le> t \<and> t \<le> INT_MAX then Inr t else Inl IntConversionOutOfRange)"

text \<open>A table read \<open>tab[i]\<close>.\<close>

definition c_index :: "'a list \<Rightarrow> int \<Rightarrow> c_error + 'a" where
  "c_index tab i =
     (if 0 \<le> i \<and> i < int (length tab) then Inr (tab ! nat i) else Inl IndexOutOfBounds)"

subsection \<open>Rounding to \<open>double\<close>\<close>

text \<open>The integer nearest to \<open>x\<close>, the even one of the two when \<open>x\<close> lies half way.\<close>

definition round_half_even :: "real \<Rightarrow> int" where
  "round_half_even x =
     (let f = \<lfloor>x\<rfloor>; d = x - of_int f
      in if d < 1 / 2 then f
         else if d > 1 / 2 then f + 1
         else if even f then f else f + 1)"

text \<open>The exponent \<open>e\<close> of a positive \<open>x\<close>: \<open>2^e \<le> x < 2^(e+1)\<close>.\<close>

definition binary_exponent :: "real \<Rightarrow> int" where
  "binary_exponent x =
     (if 1 \<le> x then bitlen \<lfloor>x\<rfloor> - 1
      else (let j = bitlen \<lfloor>1 / x\<rfloor>
            in if x * 2 ^ nat (j - 1) = 1 then 1 - j else - j))"

text \<open>
  The \<open>double\<close> nearest to \<open>x\<close>: a multiple of the spacing of the doubles at the magnitude
  of \<open>x\<close>, which is \<open>2^(e - 52)\<close> for a significand of 53 bits, and \<open>2^(-1074)\<close> below the
  normal range. A result of \<open>2^1024\<close> or more would be an infinity in C; no theorem here
  comes near it.
\<close>

definition double_round :: "real \<Rightarrow> real" where
  "double_round x =
     (if x = 0 then 0
      else (let quantum = 2 powi (max (binary_exponent \<bar>x\<bar>) (- 1022) - 52)
            in of_int (round_half_even (x / quantum)) * quantum))"

subsection \<open>Band tables\<close>

definition digit_color_names :: "string list" where
  "digit_color_names =
     [''0 Black'', ''1 Brown'', ''2 Red'', ''3 Orange'', ''4 Yellow'',
      ''5 Green'', ''6 Blue'', ''7 Violet'', ''8 Grey'', ''9 White'']"

definition multiplier_color_names :: "string list" where
  "multiplier_color_names =
     [''0 Black x1'', ''1 Brown x10'', ''2 Red x100'', ''3 Orange x1k'',
      ''4 Yellow x10k'', ''5 Green x100k'', ''6 Blue x1M'', ''7 Violet x10M'',
      ''8 Grey x100M'', ''9 White x1G'', ''10 Gold x0.1'', ''11 Silver x0.01'']"

text \<open>Each floating literal of the table denotes the nearest \<open>double\<close>.\<close>

definition multiplier_values :: "real list" where
  "multiplier_values =
     map double_round
       [1, 10, 100, 1000, 10000, 100000, 1000000, 10000000, 100000000, 1000000000,
        1 / 10, 1 / 100]"

subsection \<open>Colour to resistance\<close>

text \<open>
  The computation of \<open>rcc_color_to_resistance\<close>, as a function of the three selections
  \<open>b1\<close>, \<open>b2\<close> and \<open>m\<close> it has read:
  \<^verbatim>\<open>base = b1 * 10 + b2;  R = base * multiplier_values[m];\<close>
  The sum is an \<open>int\<close>, which converts to \<open>double\<close> without rounding; the product is
  rounded.
\<close>

definition rcc_color_to_resistance :: "int \<Rightarrow> int \<Rightarrow> int \<Rightarrow> c_error + real" where
  "rcc_color_to_resistance b1 b2 m =
     (let base = real_of_int (b1 * 10 + b2)
      in case c_index multiplier_values m of
           Inl e \<Rightarrow> Inl e
         | Inr mv \<Rightarrow> Inr (double_round (base * mv)))"

subsection \<open>Resistance to colour\<close>

text \<open>\<^verbatim>\<open>while (base >= 100 && m < 9) { base /= 10; m++; }\<close>\<close>

function rcc_divide_loop :: "real \<Rightarrow> int \<Rightarrow> real \<times> int" where
  "rcc_divide_loop base m =
     (if base \<ge> 100 \<and> m < 9 then rcc_divide_loop (base / 10) (m + 1) else (base, m))"
  by pat_completeness auto
termination
  by (relation "measure (\<lambda>(base, m). nat (9 - m))") auto

text \<open>\<^verbatim>\<open>while (base < 10 && m > 0) { base *= 10; m--; }\<close>\<close>

function rcc_multiply_loop :: "real \<Rightarrow> int \<Rightarrow> real \<times> int" where
  "rcc_multiply_loop base m =
     (if base < 10 \<and> m > 0 then rcc_multiply_loop (base * 10) (m - 1) else (base, m))"
  by pat_completeness auto
termination
  by (relation "measure (\<lambda>(base, m). nat m)") auto

text \<open>
  The computation of \<open>rcc_resistance_to_color\<close>, as a function of the resistance \<open>R\<close> it
  has read, in exact arithmetic; the result is \<open>(d1, d2, m)\<close>, the three indices it then
  looks up in the tables. \<open>/\<close> and \<open>%\<close> on \<open>int\<close> truncate toward zero (\<open>sdiv\<close>, \<open>smod\<close>).
\<close>

definition rcc_resistance_to_color :: "real \<Rightarrow> c_error + (int \<times> int \<times> int)" where
  "rcc_resistance_to_color R =
     (let (base, m) = rcc_divide_loop R 0;
          (base, m) = rcc_multiply_loop base m
      in case double_to_int (base + 0.5) of
           Inl e \<Rightarrow> Inl e
         | Inr rounded \<Rightarrow>
             (let (rounded, m) = (if rounded \<ge> 100 then (10, m + 1) else (rounded, m));
                  d1 = rounded sdiv 10;
                  d2 = rounded smod 10
              in Inr (d1, d2, m)))"

text \<open>
  The labels \<open>rcc_resistance_to_color\<close> prints: \<open>digit_color_names[d1]\<close>,
  \<open>digit_color_names[d2]\<close>, \<open>multiplier_color_names[m]\<close>.
\<close>

definition rcc_suggested_colors :: "real \<Rightarrow> c_error + (string \<times> string \<times> string)" where
  "rcc_suggested_colors R =
     (case rcc_resistance_to_color R of
        Inl e \<Rightarrow> Inl e
      | Inr (d1, d2, m) \<Rightarrow>
          (case c_index digit_color_names d1 of
             Inl e \<Rightarrow> Inl e
           | Inr band1 \<Rightarrow>
               (case c_index digit_color_names d2 of
                  Inl e \<Rightarrow> Inl e
                | Inr band2 \<Rightarrow>
                    (case c_index multiplier_color_names m of
                       Inl e \<Rightarrow> Inl e
                     | Inr band3 \<Rightarrow> Inr (band1, band2, band3)))))"

subsection \<open>The specification's algorithms\<close>

text \<open>
  The multiplier values as section 4.3 of the specification gives them: \<open>10^index\<close> at the
  indices 0 to 9, and the two fractional exceptions 0.1 (gold) and 0.01 (silver) at 10
  and 11.
\<close>

definition spec_multiplierValue :: "int \<Rightarrow> real" where
  "spec_multiplierValue i = (if i = 10 then 0.1 else if i = 11 then 0.01 else 10 ^ nat i)"

text \<open>
  The decoder as section 4.5 of the specification words it, steps 1 to 6: two
  \<open>while\<close> loops, rounding by \<open>floor(base + 0.5)\<close>, the carry, and the two digits by
  integer division and remainder.
\<close>

definition spec_decode :: "real \<Rightarrow> int \<times> int \<times> int" where
  "spec_decode resistance =
     (let (base, multiplierExponent) =
            while (\<lambda>(base, e). base \<ge> 100 \<and> e < 9) (\<lambda>(base, e). (base / 10, e + 1))
              (resistance, 0);
          (base, multiplierExponent) =
            while (\<lambda>(base, e). base < 10 \<and> e > 0) (\<lambda>(base, e). (base * 10, e - 1))
              (base, multiplierExponent);
          roundedTwoDigit = \<lfloor>base + 1 / 2\<rfloor>;
          (roundedTwoDigit, multiplierExponent) =
            (if roundedTwoDigit \<ge> 100 then (10, multiplierExponent + 1)
             else (roundedTwoDigit, multiplierExponent))
      in (roundedTwoDigit div 10, roundedTwoDigit mod 10, multiplierExponent))"

subsection \<open>Console and log file\<close>

text \<open>
  The process reads the bytes of its standard input and writes to its standard output
  and to the log file \<open>calc_log.txt\<close>. A call of \<open>printf\<close> is recorded with its format
  string and its arguments; the text the C library makes of them is not part of the
  program. \<open>log_cannot_open\<close> says that \<open>fopen\<close> of the log file fails.
\<close>

datatype printf_arg = ArgInt int | ArgStr string | ArgDouble real

type_synonym printf_call = "string \<times> printf_arg list"

record world =
  stdin :: string
  stdout :: "printf_call list"
  calc_log :: string
  log_cannot_open :: bool

text \<open>A function either returns to its caller or ends the process by \<open>exit(status)\<close>.\<close>

datatype 'a outcome = Returned 'a | Exited int

abbreviation newline :: char where
  "newline \<equiv> CHR 0x0A"

abbreviation NUL :: char where
  "NUL \<equiv> CHR 0x00"

definition LOG_FILENAME :: string where
  "LOG_FILENAME = ''calc_log.txt''"

definition printf :: "string \<Rightarrow> printf_arg list \<Rightarrow> world \<Rightarrow> world" where
  "printf fmt args w = w\<lparr>stdout := stdout w @ [(fmt, args)]\<rparr>"

text \<open>
  \<open>fgets(buf, n, stdin)\<close> stores at most \<open>n - 1\<close> characters, stopping after a
  newline, and leaves the rest unread; it returns \<open>NULL\<close> when the input has ended
  before any character.
\<close>

fun fgets_chars :: "nat \<Rightarrow> string \<Rightarrow> string \<times> string" where
  "fgets_chars 0 s = ([], s)"
| "fgets_chars (Suc n) [] = ([], [])"
| "fgets_chars (Suc n) (c # s) =
     (if c = newline then ([c], s)
      else (let (buf, rest) = fgets_chars n s in (c # buf, rest)))"

definition fgets :: "nat \<Rightarrow> string \<Rightarrow> (string \<times> string) option" where
  "fgets n s = (if s = [] then None else Some (fgets_chars (n - 1) s))"

text \<open>
  A buffer is the list of the characters before its terminating \<open>NUL\<close>; \<open>char_at buf i\<close>
  is \<open>buf[i]\<close>, read up to the terminator.
\<close>

definition char_at :: "string \<Rightarrow> nat \<Rightarrow> char" where
  "char_at buf i = (if i < length buf then buf ! i else NUL)"

definition isspace :: "char \<Rightarrow> bool" where
  "isspace c = (c = CHR '' '' \<or> c = CHR 0x09 \<or> c = CHR 0x0A \<or> c = CHR 0x0B
      \<or> c = CHR 0x0C \<or> c = CHR 0x0D)"

definition isdigit :: "char \<Rightarrow> bool" where
  "isdigit c = (48 \<le> (of_char c :: nat) \<and> (of_char c :: nat) \<le> 57)"

definition digit_value :: "char \<Rightarrow> int" where
  "digit_value c = int (of_char c) - 48"

definition LONG_MAX :: int where
  "LONG_MAX = 9223372036854775807"

definition LONG_MIN :: int where
  "LONG_MIN = - 9223372036854775808"

text \<open>
  \<open>strtol(nptr, &endptr, 10)\<close> with a 64-bit \<open>long\<close>: white space, an optional sign,
  decimal digits. The result is the value, clamped to the range of \<open>long\<close>, and
  \<open>endptr\<close> as an index into \<open>nptr\<close>; without a digit nothing is converted and \<open>endptr\<close>
  is \<open>nptr\<close> itself (index 0).
\<close>

definition strtol :: "string \<Rightarrow> int \<times> nat" where
  "strtol nptr =
     (let spaces = takeWhile isspace nptr;
          subject = dropWhile isspace nptr;
          (negative, signlen) =
            (case subject of
               [] \<Rightarrow> (False, 0)
             | c # _ \<Rightarrow>
                 if c = CHR ''-'' then (True, 1)
                 else if c = CHR ''+'' then (False, 1)
                 else (False, 0));
          digits = takeWhile isdigit (drop signlen subject);
          magnitude = foldl (\<lambda>acc c. acc * 10 + digit_value c) 0 digits;
          val = (if negative then - magnitude else magnitude)
      in if digits = [] then (0, 0)
         else (max LONG_MIN (min LONG_MAX val), length spaces + signlen + length digits))"

text \<open>\<^verbatim>\<open>while (*endptr == ' ' || *endptr == '\t') endptr++;\<close>\<close>

definition is_blank :: "char \<Rightarrow> bool" where
  "is_blank c = (c = CHR '' '' \<or> c = CHR 0x09)"

definition skip_blanks :: "string \<Rightarrow> nat \<Rightarrow> nat" where
  "skip_blanks buf endptr = endptr + length (takeWhile is_blank (drop endptr buf))"

subsection \<open>Validated input\<close>

lemma fgets_chars_length: "length (snd (fgets_chars n s)) + length (fst (fgets_chars n s)) = length s"
  by (induction n s rule: fgets_chars.induct) (auto simp: split_beta)

lemma fgets_chars_nonempty: "0 < n \<Longrightarrow> s \<noteq> [] \<Longrightarrow> fst (fgets_chars n s) \<noteq> []"
  by (cases n; cases s) (auto simp: split_beta)

lemma fgets_consumes:
  assumes "fgets (Suc (Suc n)) s = Some (buf, rest)"
  shows "length rest < length s"
proof -
  from assms have s: "s \<noteq> []" and r: "fgets_chars (Suc n) s = (buf, rest)"
    by (auto simp: fgets_def split: if_splits)
  from s have "buf \<noteq> []"
    using fgets_chars_nonempty [of "Suc n" s] r by simp
  then have "0 < length buf" by simp
  moreover have "length rest + length buf = length s"
    using fgets_chars_length [of "Suc n" s] r by simp
  ultimately show ?thesis by linarith
qed

text \<open>
  \<open>read_int(prompt, min, max)\<close>; the parameters \<open>min\<close> and \<open>max\<close> are \<open>mn\<close> and \<open>mx\<close> here.
  \<open>val\<close> is a \<open>long\<close>; where it is returned it lies between two \<open>int\<close> values, so
  \<open>(int)val\<close> is \<open>val\<close>.
\<close>

function read_int :: "string \<Rightarrow> int \<Rightarrow> int \<Rightarrow> world \<Rightarrow> int outcome \<times> world" where
  "read_int prompt mn mx w =
     (let w = printf ''%s'' [ArgStr prompt] w in
      case fgets 64 (stdin w) of
        None \<Rightarrow> (Exited 1, printf (newline # ''Input error. Exiting.'' @ [newline]) [] w)
      | Some (buf, rest) \<Rightarrow>
          (let w = w\<lparr>stdin := rest\<rparr>;
               (val, endptr) = strtol buf
           in if endptr = 0
              then read_int prompt mn mx (printf (''Please enter an integer.'' @ [newline]) [] w)
              else
                (let endptr = skip_blanks buf endptr
                 in if char_at buf endptr \<noteq> newline \<and> char_at buf endptr \<noteq> NUL
                    then read_int prompt mn mx
                           (printf (''Unexpected characters. Try again.'' @ [newline]) [] w)
                    else if val < mn \<or> val > mx
                    then read_int prompt mn mx
                           (printf (''Value must be between %d and %d.'' @ [newline])
                              [ArgInt mn, ArgInt mx] w)
                    else (Returned val, w))))"
  by pat_completeness auto
termination
proof (relation "measure (\<lambda>(prompt, mn, mx, w). length (stdin w))")
  show "wf (measure (\<lambda>(prompt, mn, mx, w). length (stdin w)))"
    by simp
qed (use fgets_consumes [of 62] in \<open>auto simp: printf_def\<close>)

subsection \<open>Display and saving\<close>





text \<open>
  \<open>fopen(LOG_FILENAME, "a")\<close>, \<open>fprintf(fp, "%s\n", summary)\<close>, \<open>fclose(fp)\<close>: the summary
  and a newline are added at the end of the log file.
\<close>

definition ask_and_save :: "string \<Rightarrow> world \<Rightarrow> unit outcome \<times> world" where
  "ask_and_save summary w =
     (let w = printf (newline # ''Save this result to '' @ [CHR 0x22] @ ''%s'' @ [CHR 0x22]
                        @ ''? (y/n): '') [ArgStr LOG_FILENAME] w
      in case fgets 16 (stdin w) of
           None \<Rightarrow> (Returned (), w)
         | Some (buf, rest) \<Rightarrow>
             (let w = w\<lparr>stdin := rest\<rparr>
              in if char_at buf 0 = CHR ''y'' \<or> char_at buf 0 = CHR ''Y''
                 then
                   (if log_cannot_open w
                    then (Returned (), printf (''Could not open log file.'' @ [newline]) [] w)
                    else (Returned (),
                          printf (''Saved.'' @ [newline]) []
                            (w\<lparr>calc_log := calc_log w @ summary @ [newline]\<rparr>)))
                 else (Returned (), printf (''Not saved.'' @ [newline]) [] w)))"

subsection \<open>The specification's reading of an input line\<close>

text \<open>
  Section 4.1 of the specification: an attempt fails when the line contains no parseable
  integer, when characters other than white space follow the integer, or when the value
  lies outside \<open>[min, max]\<close>; each failure has its diagnostic. A line is given without its
  newline.
\<close>

datatype verdict = NoInteger | TrailingCharacters | OutsideRange | Valid int

definition line_verdict :: "int \<Rightarrow> int \<Rightarrow> string \<Rightarrow> verdict" where
  "line_verdict mn mx line =
     (let (v, n) = strtol line
      in if n = 0 then NoInteger
         else if dropWhile isspace (drop n line) \<noteq> [] then TrailingCharacters
         else if v < mn \<or> mx < v then OutsideRange
         else Valid v)"

definition is_valid :: "int \<Rightarrow> int \<Rightarrow> string \<Rightarrow> bool" where
  "is_valid mn mx line = (case line_verdict mn mx line of Valid v \<Rightarrow> True | _ \<Rightarrow> False)"

definition diagnostic :: "int \<Rightarrow> int \<Rightarrow> string \<Rightarrow> printf_call list" where
  "diagnostic mn mx line =
     (case line_verdict mn mx line of
        NoInteger \<Rightarrow> [(''Please enter an integer.'' @ [newline], [])]
      | TrailingCharacters \<Rightarrow> [(''Unexpected characters. Try again.'' @ [newline], [])]
      | OutsideRange \<Rightarrow>
          [(''Value must be between %d and %d.'' @ [newline], [ArgInt mn, ArgInt mx])]
      | Valid v \<Rightarrow> [])"

text \<open>
  A line of plain text: at most 62 characters, so that the line and its newline fit the 63
  characters of one \<open>fgets\<close>, and no newline, \<open>NUL\<close>, vertical tab, form feed or carriage
  return in it, so that its white space is spaces and tabs.
\<close>

definition text_line :: "string \<Rightarrow> bool" where
  "text_line line =
     (length line \<le> 62 \<and> newline \<notin> set line \<and> NUL \<notin> set line
      \<and> CHR 0x0B \<notin> set line \<and> CHR 0x0C \<notin> set line \<and> CHR 0x0D \<notin> set line)"

text \<open>The input stream that holds the given lines, each ended by a newline.\<close>

definition feed :: "string list \<Rightarrow> string" where
  "feed lines = concat (map (\<lambda>line. line @ [newline]) lines)"

text \<open>
  What the reader prints when it rejects the given lines and then accepts one: the prompt
  and the diagnostic for each rejected line, and the prompt of the accepted attempt.
\<close>

definition transcript :: "string \<Rightarrow> int \<Rightarrow> int \<Rightarrow> string list \<Rightarrow> printf_call list" where
  "transcript prompt mn mx rejected =
     concat (map (\<lambda>line. (''%s'', [ArgStr prompt]) # diagnostic mn mx line) rejected)
       @ [(''%s'', [ArgStr prompt])]"

section \<open>Properties of the encoder\<close>

subsection \<open>Rounding\<close>

lemma round_half_even_of_int: "round_half_even (of_int k) = k"
  by (simp add: round_half_even_def)

lemma round_half_even_error: "\<bar>of_int (round_half_even y) - y\<bar> \<le> 1 / 2"
  by (auto simp: round_half_even_def Let_def)

lemma round_half_even_nonneg: "0 \<le> y \<Longrightarrow> 0 \<le> round_half_even y"
  by (auto simp: round_half_even_def Let_def)

lemma binary_exponent_bounds:
  assumes "0 < x"
  shows "2 powi binary_exponent x \<le> x \<and> x < 2 powi (binary_exponent x + 1)"
proof (cases "1 \<le> x")
  case True
  define n where "n = \<lfloor>x\<rfloor>"
  have n: "0 < n" using True by (simp add: n_def)
  have e: "binary_exponent x = bitlen n - 1"
    using True by (simp add: binary_exponent_def n_def)
  have bl: "1 \<le> bitlen n"
    using n by (simp add: bitlen_alt_def)
  from bitlen_bounds [OF n] have lo: "2 ^ nat (bitlen n - 1) \<le> n" and hi: "n < 2 ^ nat (bitlen n)"
    by simp_all
  have "2 powi (bitlen n - 1) = (2::real) ^ nat (bitlen n - 1)"
    using bl by (simp add: power_int_def)
  also have "\<dots> = of_int (2 ^ nat (bitlen n - 1))" by simp
  also have "\<dots> \<le> of_int n" using lo by (simp only: of_int_le_iff)
  also have "\<dots> \<le> x" by (simp add: n_def)
  finally have 1: "2 powi (bitlen n - 1) \<le> x" .
  have "n + 1 \<le> 2 ^ nat (bitlen n)" using hi by simp
  then have "of_int (n + 1) \<le> (of_int (2 ^ nat (bitlen n)) :: real)"
    by (simp only: of_int_le_iff)
  moreover have "x < of_int (n + 1)" by (simp add: n_def)
  ultimately have "x < 2 ^ nat (bitlen n)" by simp
  also have "\<dots> = 2 powi (bitlen n - 1 + 1)"
    using bl by (simp add: power_int_def)
  finally show ?thesis using 1 e by simp
next
  case False
  define n where "n = \<lfloor>1 / x\<rfloor>"
  define j where "j = bitlen n"
  from False assms have y: "1 < 1 / x" by simp
  then have n: "0 < n" by (simp add: n_def)
  have bl: "1 \<le> j"
    using n by (simp add: bitlen_alt_def j_def)
  from bitlen_bounds [OF n] have lo: "2 ^ nat (j - 1) \<le> n" and hi: "n < 2 ^ nat j"
    by (simp_all add: j_def)
  have "of_int (2 ^ nat (j - 1)) \<le> (of_int n :: real)" using lo by (simp only: of_int_le_iff)
  also have "\<dots> \<le> 1 / x" by (simp add: n_def)
  finally have lo': "2 ^ nat (j - 1) \<le> 1 / x" by simp
  have "n + 1 \<le> 2 ^ nat j" using hi by simp
  then have "of_int (n + 1) \<le> (of_int (2 ^ nat j) :: real)"
    by (simp only: of_int_le_iff)
  moreover have "1 / x < of_int (n + 1)" by (simp add: n_def)
  ultimately have hi': "1 / x < 2 ^ nat j" by simp
  have xle: "x * 2 ^ nat (j - 1) \<le> 1"
    using lo' assms by (simp add: field_simps)
  have xgt: "1 < x * 2 ^ nat j"
    using hi' assms by (simp add: field_simps)
  have pj: "2 powi (- j) = 1 / (2::real) ^ nat j"
    using bl by (simp add: power_int_def field_simps)
  have pj1: "2 powi (1 - j) = 1 / (2::real) ^ nat (j - 1)"
    using bl by (auto simp: power_int_def field_simps)
  show ?thesis
  proof (cases "x * 2 ^ nat (j - 1) = 1")
    case True
    then have e: "binary_exponent x = 1 - j"
      using False by (simp add: binary_exponent_def n_def j_def)
    have xeq: "x = 2 powi (1 - j)"
      using True by (simp add: pj1 field_simps)
    have "(2::real) powi (1 - j) < 2 powi (1 - j + 1)"
      by (rule power_int_strict_increasing) simp_all
    with xeq e show ?thesis by simp
  next
    case neq: False
    then have e: "binary_exponent x = - j"
      using False by (simp add: binary_exponent_def n_def j_def)
    have "2 powi (- j) < x"
      using xgt by (simp add: pj field_simps)
    moreover have "x < 2 powi (- j + 1)"
      using xle neq by (simp add: pj1 field_simps)
    ultimately show ?thesis using e by simp
  qed
qed


lemma two_powi_less_imp: "(2::real) powi a < 2 powi b \<Longrightarrow> a < b"
  using power_int_increasing [of b a "2::real"] by (cases "a < b") simp_all

lemma double_round_nonneg: "0 \<le> x \<Longrightarrow> 0 \<le> double_round x"
  by (simp add: double_round_def Let_def round_half_even_nonneg)

text \<open>In the normal range the result is within half a unit in the last place.\<close>

lemma double_round_error:
  assumes x: "0 < x" and normal: "2 powi (- 1022) \<le> x"
  shows "\<bar>double_round x - x\<bar> \<le> x / 2 ^ 53"
proof -
  define e where "e = binary_exponent x"
  define q :: real where "q = 2 powi (e - 52)"
  from binary_exponent_bounds [OF x] have lo: "2 powi e \<le> x" and hi: "x < 2 powi (e + 1)"
    by (simp_all add: e_def)
  have "(2::real) powi (- 1022) < 2 powi (e + 1)"
    using normal hi by simp
  then have "- 1022 < e + 1"
    by (rule two_powi_less_imp)
  then have m: "max e (- 1022) = e" by simp
  have q: "0 < q" by (simp add: q_def)
  have ab: "\<bar>x\<bar> = x" and nz: "x \<noteq> 0"
    using x by simp_all
  have dr: "double_round x = of_int (round_half_even (x / q)) * q"
    unfolding double_round_def Let_def ab e_def [symmetric] m q_def using nz
    by (simp only: if_False)
  have "double_round x - x = (of_int (round_half_even (x / q)) - x / q) * q"
    using q by (simp add: dr field_simps)
  then have "\<bar>double_round x - x\<bar> = \<bar>of_int (round_half_even (x / q)) - x / q\<bar> * \<bar>q\<bar>"
    by (simp only: abs_mult)
  also have "\<bar>q\<bar> = q"
    using q by simp
  finally have "\<bar>double_round x - x\<bar> = \<bar>of_int (round_half_even (x / q)) - x / q\<bar> * q" .
  also have "\<dots> \<le> 1 / 2 * q"
    using round_half_even_error [of "x / q"] q by (intro mult_right_mono) simp_all
  finally have half: "\<bar>double_round x - x\<bar> \<le> 1 / 2 * q" .
  have "q = 2 powi e * 2 powi (- 52)"
    unfolding q_def by (subst power_int_add [symmetric]) simp_all
  also have "(2::real) powi (- 52) = 1 / 2 ^ 52"
    by (simp add: power_int_def field_simps)
  finally have "1 / 2 * q = 2 powi e / 2 ^ 53"
    by simp
  also have "\<dots> \<le> x / 2 ^ 53"
    using lo by (simp add: divide_right_mono)
  finally have "1 / 2 * q \<le> x / 2 ^ 53" .
  with half show ?thesis by linarith
qed

text \<open>An integer below \<open>2^53\<close> is a double.\<close>

lemma double_round_of_int:
  assumes n: "0 \<le> n" "n < 2 ^ 53"
  shows "double_round (of_int n) = of_int n"
proof (cases "n = 0")
  case True
  then show ?thesis by (simp add: double_round_def)
next
  case False
  with n have pos: "0 < (of_int n :: real)" and one: "1 \<le> (of_int n :: real)"
    by simp_all
  define e where "e = binary_exponent (of_int n)"
  from binary_exponent_bounds [OF pos] have lo: "2 powi e \<le> (of_int n :: real)"
    by (simp add: e_def)
  have npos: "0 < n"
    using False n(1) by simp
  have e0: "0 \<le> e"
    using one npos by (simp add: e_def binary_exponent_def bitlen_alt_def)
  have "(of_int n :: real) < of_int (2 ^ 53)"
    using n(2) by (simp only: of_int_less_iff)
  also have "(of_int (2 ^ 53) :: real) = 2 powi 53"
    by simp
  finally have "(of_int n :: real) < 2 powi 53" .
  with lo have "(2::real) powi e < 2 powi 53"
    by linarith
  then have "e < 53"
    by (rule two_powi_less_imp)
  then have e52: "e \<le> 52" by simp
  define k where "k = nat (52 - e)"
  have q: "(2::real) powi (e - 52) * 2 ^ k = 1"
  proof -
    have "(2::real) powi (e - 52) * 2 powi (52 - e) = 2 powi 0"
      by (subst power_int_add [symmetric]) simp_all
    then show ?thesis
      using e52 by (simp add: k_def power_int_def)
  qed
  have qpos: "0 < (2::real) powi (e - 52)" by simp
  have "of_int n / 2 powi (e - 52) = (of_int n * 2 ^ k :: real)"
    using q qpos by (simp add: field_simps)
  also have "\<dots> = of_int (n * 2 ^ k)" by simp
  finally have scaled: "of_int n / 2 powi (e - 52) = (of_int (n * 2 ^ k) :: real)" .
  have m: "max e (- 1022) = e"
    using e0 by simp
  have ab: "\<bar>of_int n :: real\<bar> = of_int n"
    using n(1) by simp
  have nz: "(of_int n :: real) \<noteq> 0"
    using False by simp
  have "double_round (of_int n) =
      of_int (round_half_even (of_int n / 2 powi (e - 52))) * 2 powi (e - 52)"
    unfolding double_round_def Let_def ab e_def [symmetric] m using nz by (simp only: if_False)
  also have "\<dots> = of_int (n * 2 ^ k) * 2 powi (e - 52)"
    by (simp only: scaled round_half_even_of_int)
  also have "\<dots> = of_int n * (2 powi (e - 52) * 2 ^ k)"
    by simp
  finally show ?thesis
    by (simp only: q mult_1_right)
qed

subsection \<open>The table and the product\<close>

lemma multiplier_values_doubles:
  "multiplier_values =
     [1, 10, 100, 1000, 10000, 100000, 1000000, 10000000, 100000000, 1000000000,
      3602879701896397 / 2 ^ 55, 5764607523034235 / 2 ^ 59]"
  unfolding multiplier_values_def by code_simp

lemma power_table_entry:
  assumes "0 \<le> idx" "idx \<le> 9"
  shows "c_index multiplier_values idx = Inr (10 ^ nat idx)"
proof -
  from assms have "idx \<in> {0, 1, 2, 3, 4, 5, 6, 7, 8, 9}"
    by simp presburger
  then show ?thesis
    by (auto simp: c_index_def multiplier_values_doubles)
qed

lemma fraction_table_entries:
  "c_index multiplier_values 10 = Inr (3602879701896397 / 2 ^ 55)"
  "c_index multiplier_values 11 = Inr (5764607523034235 / 2 ^ 59)"
  by (simp_all add: c_index_def multiplier_values_doubles)

lemma encode_power_exact:
  assumes b: "0 \<le> base" "base \<le> 99" and k: "k \<le> 9"
  shows "double_round (real_of_int base * 10 ^ k) = real_of_int base * 10 ^ k"
proof -
  have "(10::int) ^ k \<le> 10 ^ 9"
    using k by (intro power_increasing) simp_all
  with b have "base * 10 ^ k \<le> 99 * 10 ^ 9"
    by (intro mult_mono) simp_all
  then have "base * 10 ^ k < 2 ^ 53" by simp
  moreover have "0 \<le> base * 10 ^ k" using b by simp
  ultimately have "double_round (of_int (base * 10 ^ k)) = of_int (base * 10 ^ k)"
    by (intro double_round_of_int)
  then show ?thesis by simp
qed

text \<open>The product with a table entry \<open>g\<close> close to the fraction \<open>f\<close> it stands for.\<close>

lemma encode_fraction_close:
  assumes b: "0 \<le> base" "base \<le> 99"
    and g: "1 / 16384 \<le> g" "g \<le> 1" "\<bar>g - f\<bar> \<le> f / 2 ^ 54" "0 < f"
  shows "0 \<le> double_round (real_of_int base * g) \<and> double_round (real_of_int base * g) \<le> 100
    \<and> \<bar>double_round (real_of_int base * g) - real_of_int base * f\<bar> \<le> real_of_int base * f / 2 ^ 52"
proof (cases "base = 0")
  case True
  then show ?thesis by (simp add: double_round_def)
next
  case False
  define B where "B = real_of_int base"
  define x where "x = B * g"
  have B: "1 \<le> B" "B \<le> 99"
    using b False by (simp_all add: B_def)
  have gpos: "0 < g" using g(1) by linarith
  have "1 * g \<le> B * g"
    using B(1) gpos by (intro mult_right_mono) simp_all
  moreover have "B * g \<le> 99 * 1"
    using B g(2) gpos by (intro mult_mono) simp_all
  ultimately have xg: "g \<le> x" "x \<le> 99"
    by (simp_all add: x_def)
  have xpos: "0 < x" using xg g by linarith
  have "(2::real) powi (- 1022) \<le> 2 powi (- 14)"
    by (rule power_int_increasing) simp_all
  also have "\<dots> = 1 / 16384" by (simp add: power_int_minus inverse_eq_divide)
  finally have normal: "2 powi (- 1022) \<le> x"
    using g(1) xg(1) by linarith
  note err = double_round_error [OF xpos normal]
  have "x - B * f = B * (g - f)"
    by (simp add: x_def right_diff_distrib)
  then have "\<bar>x - B * f\<bar> = \<bar>B\<bar> * \<bar>g - f\<bar>"
    by (simp only: abs_mult)
  also have "\<bar>B\<bar> = B"
    using B(1) by simp
  finally have "\<bar>x - B * f\<bar> = B * \<bar>g - f\<bar>" .
  also have "\<dots> \<le> B * (f / 2 ^ 54)"
    using g(3) B by (intro mult_left_mono) simp_all
  finally have xf: "\<bar>x - B * f\<bar> \<le> B * f / 2 ^ 54" by simp
  have Bf: "0 < B * f" using B g(4) by simp
  define P where "P = B * f"
  define r where "r = double_round x"
  have "r - x \<le> x / 2 ^ 53 \<and> - (r - x) \<le> x / 2 ^ 53"
    using err unfolding r_def by (simp only: abs_le_iff)
  then have e1: "r - x \<le> x / 9007199254740992" "x - r \<le> x / 9007199254740992"
    by simp_all
  have "x - P \<le> P / 2 ^ 54 \<and> - (x - P) \<le> P / 2 ^ 54"
    using xf unfolding P_def by (simp only: abs_le_iff)
  then have e2: "x - P \<le> P / 18014398509481984" "P - x \<le> P / 18014398509481984"
    by simp_all
  have P: "0 < P" using Bf by (simp add: P_def)
  have "r - P \<le> P / 4503599627370496" "P - r \<le> P / 4503599627370496"
    using e1 e2 P by linarith+
  then have "r - P \<le> P / 2 ^ 52 \<and> - (r - P) \<le> P / 2 ^ 52"
    by simp
  then have 1: "\<bar>double_round x - B * f\<bar> \<le> B * f / 2 ^ 52"
    unfolding r_def P_def by (simp only: abs_le_iff)
  have "r \<le> 100"
    using e1 xg by linarith
  then have 2: "double_round x \<le> 100"
    by (simp only: r_def)
  from 1 2 double_round_nonneg [of x] xpos show ?thesis
    by (simp add: x_def B_def)
qed

text \<open>
  Claim C2, amended. For two digits in 0..9 and a multiplier index in 0..11, the encoder
  reads the table inside its bounds and returns a resistance \<open>r\<close> that is not negative and
  at most \<open>99 * 10^9\<close>, hence finite. For the indices 0 to 9, \<open>r\<close> is exactly
  \<open>(digit1 * 10 + digit2) * 10^index\<close>. For gold and silver, \<open>r\<close> is the \<open>double\<close> product of the
  digits and the table entry, and lies within a relative error of \<open>2^(-52)\<close> of
  \<open>(digit1 * 10 + digit2) * 0.1\<close> or \<open>* 0.01\<close>.
\<close>

theorem rcc_color_to_resistance_value:
  assumes "0 \<le> b1" "b1 \<le> 9" "0 \<le> b2" "b2 \<le> 9"
    and "0 \<le> idx" "idx \<le> 11"
  shows "\<exists>r. rcc_color_to_resistance b1 b2 idx = Inr r
      \<and> 0 \<le> r \<and> r \<le> 99 * 10 ^ 9
      \<and> (idx \<le> 9 \<longrightarrow> r = real_of_int (b1 * 10 + b2) * spec_multiplierValue idx)
      \<and> \<bar>r - real_of_int (b1 * 10 + b2) * spec_multiplierValue idx\<bar>
          \<le> real_of_int (b1 * 10 + b2) * spec_multiplierValue idx / 2 ^ 52"
proof -
  define base where "base = b1 * 10 + b2"
  have base: "0 \<le> base" "base \<le> 99"
    using assms(1-4) by (simp_all add: base_def)
  consider (power) "idx \<le> 9" | (gold) "idx = 10" | (silver) "idx = 11"
    using assms(6) by linarith
  then show ?thesis
  proof cases
    case power
    define k where "k = nat idx"
    have k: "k \<le> 9" using power by (simp add: k_def)
    have r: "rcc_color_to_resistance b1 b2 idx = Inr (real_of_int base * 10 ^ k)"
      using power_table_entry [OF assms(5) power] encode_power_exact [OF base k]
      by (simp add: rcc_color_to_resistance_def base_def k_def)
    have sv: "spec_multiplierValue idx = 10 ^ k"
      using power by (simp add: spec_multiplierValue_def k_def)
    have "(10::real) ^ k \<le> 10 ^ 9"
      using k by (intro power_increasing) simp_all
    moreover have "real_of_int base \<le> 99" "0 \<le> real_of_int base"
      using base by simp_all
    ultimately have "real_of_int base * 10 ^ k \<le> 99 * 10 ^ 9"
      by (intro mult_mono) simp_all
    moreover have "0 \<le> real_of_int base * 10 ^ k"
      using base by simp
    ultimately show ?thesis
      using r sv by (simp add: base_def)
  next
    case gold
    have "\<bar>3602879701896397 / 2 ^ 55 - 1 / 10\<bar> \<le> (1 / 10 :: real) / 2 ^ 54"
      by simp
    from encode_fraction_close [OF base _ _ this]
    have "0 \<le> double_round (real_of_int base * (3602879701896397 / 2 ^ 55))
      \<and> double_round (real_of_int base * (3602879701896397 / 2 ^ 55)) \<le> 100
      \<and> \<bar>double_round (real_of_int base * (3602879701896397 / 2 ^ 55)) - real_of_int base * (1 / 10)\<bar>
          \<le> real_of_int base * (1 / 10) / 2 ^ 52"
      by simp
    then show ?thesis
      using gold fraction_table_entries(1)
      by (simp add: rcc_color_to_resistance_def spec_multiplierValue_def base_def)
  next
    case silver
    have "\<bar>5764607523034235 / 2 ^ 59 - 1 / 100\<bar> \<le> (1 / 100 :: real) / 2 ^ 54"
      by simp
    from encode_fraction_close [OF base _ _ this]
    have "0 \<le> double_round (real_of_int base * (5764607523034235 / 2 ^ 59))
      \<and> double_round (real_of_int base * (5764607523034235 / 2 ^ 59)) \<le> 100
      \<and> \<bar>double_round (real_of_int base * (5764607523034235 / 2 ^ 59)) - real_of_int base * (1 / 100)\<bar>
          \<le> real_of_int base * (1 / 100) / 2 ^ 52"
      by simp
    then show ?thesis
      using silver fraction_table_entries(2)
      by (simp add: rcc_color_to_resistance_def spec_multiplierValue_def base_def)
  qed
qed

text \<open>
  The amended claim at white, white, white, which is exactly \<open>99 * 10^9\<close> ohms, and at
  yellow, violet, gold, which is the double nearest to 4.7 ohms.
\<close>

theorem rcc_color_to_resistance_value_witness:
  "rcc_color_to_resistance 9 9 9 = Inr 99000000000
   \<and> rcc_color_to_resistance 4 7 10 = Inr (5291729562160333 / 2 ^ 50)
   \<and> \<bar>5291729562160333 / 2 ^ 50 - 47 * spec_multiplierValue 10\<bar>
        \<le> 47 * spec_multiplierValue 10 / 2 ^ 52"
proof -
  have v: "rcc_color_to_resistance 4 7 10 = Inr (5291729562160333 / 2 ^ 50)"
    by code_simp
  from rcc_color_to_resistance_value [of 9 9 9] rcc_color_to_resistance_value [of 4 7 10] v
  show ?thesis
    by (auto simp: spec_multiplierValue_def)
qed

text \<open>
  Claim C2 as stated, with an exact product for gold and silver too, fails at black,
  orange, gold: the product of 3 and the table's 0.1 rounds to 0.30000000000000004, which
  is \<open>1351079888211149 / 2^52\<close> and not three tenths.
\<close>

theorem rcc_color_to_resistance_gold_counterexample:
  "rcc_color_to_resistance 0 3 10 = Inr (1351079888211149 / 2 ^ 52)
   \<and> rcc_color_to_resistance 0 3 10 \<noteq> Inr (real_of_int (0 * 10 + 3) * spec_multiplierValue 10)"
proof -
  have v: "rcc_color_to_resistance 0 3 10 = Inr (1351079888211149 / 2 ^ 52)"
    by code_simp
  then show ?thesis
    by (simp add: spec_multiplierValue_def)
qed

section \<open>Properties of the decoder\<close>

declare rcc_divide_loop.simps [simp del] rcc_multiply_loop.simps [simp del]

lemmas rcc_eval = rcc_resistance_to_color_def rcc_divide_loop.simps rcc_multiply_loop.simps
  double_to_int_def INT_MIN_def INT_MAX_def signed_divide_int_def signed_modulo_int_def

subsection \<open>The two loops\<close>

lemma sdiv_nonneg: "0 \<le> k \<Longrightarrow> k sdiv 10 = k div (10::int)"
  by (simp add: signed_divide_int_def sgn_if)

lemma smod_nonneg: "0 \<le> k \<Longrightarrow> k smod 10 = k mod (10::int)"
  by (simp add: signed_modulo_int_def sgn_if)

lemma while_divide_loop:
  "while (\<lambda>(base, e). base \<ge> 100 \<and> e < 9) (\<lambda>(base, e). (base / 10, e + 1)) (b, m)
     = rcc_divide_loop b m"
proof (induction b m rule: rcc_divide_loop.induct)
  case (1 base m)
  show ?case
    by (subst while_unfold, subst rcc_divide_loop.simps) (simp add: 1)
qed

lemma while_multiply_loop:
  "while (\<lambda>(base, e). base < 10 \<and> e > 0) (\<lambda>(base, e). (base * 10, e - 1)) (b, m)
     = rcc_multiply_loop b m"
proof (induction b m rule: rcc_multiply_loop.induct)
  case (1 base m)
  show ?case
    by (subst while_unfold, subst rcc_multiply_loop.simps) (simp add: 1)
qed

lemma divide_loop_inv:
  "rcc_divide_loop b m = (b', m') \<Longrightarrow> 0 < b \<Longrightarrow> m \<le> 9 \<Longrightarrow>
     0 < b' \<and> m \<le> m' \<and> m' \<le> 9 \<and> b' * 10 ^ nat (m' - m) = b \<and> (b' < 100 \<or> m' = 9)"
proof (induction b m rule: rcc_divide_loop.induct)
  case (1 base m)
  show ?case
  proof (cases "base \<ge> 100 \<and> m < 9")
    case True
    then have call: "rcc_divide_loop (base / 10) (m + 1) = (b', m')"
      using "1.prems"(1) by (subst (asm) rcc_divide_loop.simps) simp
    have ih: "0 < b' \<and> m + 1 \<le> m' \<and> m' \<le> 9 \<and> b' * 10 ^ nat (m' - (m + 1)) = base / 10
        \<and> (b' < 100 \<or> m' = 9)"
      using "1.IH" [OF True call] "1.prems"(2) True by simp
    then have "nat (m' - m) = Suc (nat (m' - (m + 1)))"
      by linarith
    then have "b' * 10 ^ nat (m' - m) = base"
      using ih by simp
    with ih show ?thesis by simp
  next
    case False
    then have "b' = base" "m' = m"
      using "1.prems"(1) by (subst (asm) rcc_divide_loop.simps, simp)+
    with False "1.prems" show ?thesis by auto
  qed
qed

lemma multiply_loop_inv:
  "rcc_multiply_loop b m = (b', m') \<Longrightarrow> 0 < b \<Longrightarrow> 0 \<le> m \<Longrightarrow> b < B \<Longrightarrow> 100 \<le> B \<Longrightarrow>
     0 < b' \<and> 0 \<le> m' \<and> m' \<le> m \<and> b' < B"
proof (induction b m rule: rcc_multiply_loop.induct)
  case (1 base m)
  show ?case
  proof (cases "base < 10 \<and> m > 0")
    case True
    then have call: "rcc_multiply_loop (base * 10) (m - 1) = (b', m')"
      using "1.prems"(1) by (subst (asm) rcc_multiply_loop.simps) simp
    have "0 < b' \<and> 0 \<le> m' \<and> m' \<le> m - 1 \<and> b' < B"
      using "1.IH" [OF True call] "1.prems" True by simp
    then show ?thesis by simp
  next
    case False
    then have "b' = base" "m' = m"
      using "1.prems"(1) by (subst (asm) rcc_multiply_loop.simps, simp)+
    with "1.prems" show ?thesis by simp
  qed
qed

text \<open>The state after the two loops, for a positive resistance.\<close>

lemma normalized_bounds:
  assumes R: "0 < R"
    and loops: "rcc_multiply_loop (fst (rcc_divide_loop R 0)) (snd (rcc_divide_loop R 0)) = (b, m)"
  shows "0 < b \<and> 0 \<le> m \<and> m \<le> 9 \<and> (R < B * 10 ^ 9 \<longrightarrow> 100 \<le> B \<longrightarrow> b < B)"
proof -
  obtain b1 m1 where d: "rcc_divide_loop R 0 = (b1, m1)"
    by (cases "rcc_divide_loop R 0")
  have i1: "0 < b1 \<and> 0 \<le> m1 \<and> m1 \<le> 9 \<and> b1 * 10 ^ nat (m1 - 0) = R \<and> (b1 < 100 \<or> m1 = 9)"
    using divide_loop_inv [OF d R] by simp
  have l: "rcc_multiply_loop b1 m1 = (b, m)"
    using loops d by simp
  have pos: "0 < b \<and> 0 \<le> m \<and> m \<le> m1"
    using multiply_loop_inv [OF l, of "b1 + 100"] i1 by simp
  have "b < B" if RB: "R < B * 10 ^ 9" and B: "100 \<le> B"
  proof -
    have "b1 < B"
    proof (cases "b1 < 100")
      case True
      with B show ?thesis by simp
    next
      case False
      with i1 have "m1 = 9" by simp
      with i1 have "b1 * 10 ^ 9 = R" by simp
      with RB show ?thesis by simp
    qed
    then show ?thesis
      using multiply_loop_inv [OF l _ _ _ B] i1 by simp
  qed
  with pos i1 show ?thesis by simp
qed


text \<open>Where the decoder returns indices at all, they are inside the tables.\<close>

lemma rcc_indices_when_defined:
  assumes R: "0 < R" and res: "rcc_resistance_to_color R = Inr (d1, d2, m)"
  shows "0 \<le> d1 \<and> d1 \<le> 9 \<and> 0 \<le> d2 \<and> d2 \<le> 9 \<and> 0 \<le> m \<and> m \<le> 10"
proof -
  obtain b m0 where loops:
    "rcc_multiply_loop (fst (rcc_divide_loop R 0)) (snd (rcc_divide_loop R 0)) = (b, m0)"
    by (cases "rcc_multiply_loop (fst (rcc_divide_loop R 0)) (snd (rcc_divide_loop R 0))")
  have nb: "0 < b \<and> 0 \<le> m0 \<and> m0 \<le> 9"
    using normalized_bounds [OF R loops, of 100] by simp
  obtain r where cast: "double_to_int (b + 0.5) = Inr r"
    using res loops by (auto simp: rcc_resistance_to_color_def split_beta split: sum.splits)
  have r: "0 \<le> r"
    using cast nb by (auto simp: double_to_int_def Let_def split: if_splits)
  show ?thesis
  proof (cases "r \<ge> 100")
    case True
    then have "d1 = 1 \<and> d2 = 0 \<and> m = m0 + 1"
      using res loops cast
      by (simp add: rcc_resistance_to_color_def split_beta signed_divide_int_def
          signed_modulo_int_def)
    with nb show ?thesis by simp
  next
    case False
    then have "d1 = r div 10 \<and> d2 = r mod 10 \<and> m = m0"
      using res loops cast r
      by (auto simp: rcc_resistance_to_color_def split_beta sdiv_nonneg smod_nonneg)
    moreover have "0 \<le> r div 10 \<and> r div 10 \<le> 9 \<and> 0 \<le> r mod 10 \<and> r mod 10 \<le> 9"
      using r False by presburger
    ultimately show ?thesis
      using nb by simp
  qed
qed

text \<open>So, where the decoder returns indices, each of its three table reads succeeds.\<close>

lemma rcc_suggested_colors_when_defined:
  assumes R: "0 < R" and res: "rcc_resistance_to_color R = Inr (d1, d2, m)"
  shows "rcc_suggested_colors R =
    Inr (digit_color_names ! nat d1, digit_color_names ! nat d2, multiplier_color_names ! nat m)"
  using rcc_indices_when_defined [OF R res] res
  by (simp add: rcc_suggested_colors_def c_index_def digit_color_names_def
      multiplier_color_names_def)

text \<open>From the bound on, the conversion is outside the range of \<open>int\<close>.\<close>

lemma rcc_undefined_from_bound:
  assumes big: "2147483647.5 * 10 ^ 9 \<le> R"
  shows "rcc_resistance_to_color R = Inl IntConversionOutOfRange"
proof -
  have R: "0 < R"
    using big by simp
  obtain b m where d: "rcc_divide_loop R 0 = (b, m)"
    by (cases "rcc_divide_loop R 0")
  have i: "0 < b \<and> 0 \<le> m \<and> m \<le> 9 \<and> b * 10 ^ nat m = R \<and> (b < 100 \<or> m = 9)"
    using divide_loop_inv [OF d R] by simp
  have m: "m = 9"
  proof (rule ccontr)
    assume "m \<noteq> 9"
    with i have b: "b < 100" by simp
    have "nat m \<le> 9"
      using i by linarith
    then have "(10::real) ^ nat m \<le> 10 ^ 9"
      by (intro power_increasing) simp_all
    with b i have "b * 10 ^ nat m \<le> 100 * 10 ^ 9"
      by (intro mult_mono) simp_all
    with i big show False by simp
  qed
  with i have b: "2147483647.5 \<le> b"
    using big by simp
  then have "rcc_multiply_loop b 9 = (b, 9)"
    by (subst rcc_multiply_loop.simps) simp
  moreover have "2147483648 \<le> \<lfloor>b + 1 / 2\<rfloor>"
    using b by (simp add: le_floor_iff)
  ultimately show ?thesis
    using d m b by (simp add: rcc_resistance_to_color_def double_to_int_def INT_MAX_def)
qed

subsection \<open>The decoder and the specification's algorithm\<close>

text \<open>
  Claim C1. The decoder is said to compute, for every strictly positive resistance, what
  the algorithm of the specification gives. At \<open>3 * 10^18\<close> ohms it does not: the division
  loop stops at the exponent 9 with base \<open>3 * 10^9\<close>, the second loop leaves that, and
  \<open>floor(base + 0.5)\<close> is 3000000000, which the algorithm carries to the digits 1 and 0 at
  exponent 10; the program converts \<open>base + 0.5\<close> to \<open>int\<close>, and 3000000000 is outside the
  range of \<open>int\<close>, so the program has no defined result. (\<open>3 * 10^18\<close>, each of its nine
  quotients by ten and 3000000000.5 are doubles, so the program computes these very
  values.)
\<close>

theorem rcc_resistance_to_color_leaves_spec:
  "rcc_divide_loop (3 * 10 ^ 18) 0 = (3 * 10 ^ 9, 9)
   \<and> rcc_multiply_loop (3 * 10 ^ 9) 9 = (3 * 10 ^ 9, 9)
   \<and> double_to_int (3 * 10 ^ 9 + 0.5) = Inl IntConversionOutOfRange
   \<and> rcc_resistance_to_color (3 * 10 ^ 18) = Inl IntConversionOutOfRange
   \<and> spec_decode (3 * 10 ^ 18) = (1, 0, 10)"
  by (simp add: rcc_eval spec_decode_def while_divide_loop while_multiply_loop)

subsection \<open>Particular resistances\<close>

text \<open>
  Claim C3, amended. Decoding 996 ohms divides once, to base 99.6 at exponent 1; the
  second loop leaves that; 99.6 + 0.5 converts to 100, which carries; the result is
  digit 1, digit 0 and multiplier exponent 2 (10 times 10^2, about 1000 ohms).
\<close>

theorem rcc_996_carry:
  "rcc_divide_loop 996 0 = (99.6, 1) \<and> rcc_multiply_loop 99.6 1 = (99.6, 1)
   \<and> double_to_int (99.6 + 0.5) = Inr 100
   \<and> rcc_resistance_to_color 996 = Inr (1, 0, 2)"
  by (simp add: rcc_eval)

text \<open>
  Claim C3 as stated gives the exponent 3 (10 times 10^3, ten times too much); the decoder
  does not return that.
\<close>

theorem rcc_996_exponent_counterexample:
  "rcc_resistance_to_color 996 \<noteq> Inr (1, 0, 3)"
  by (simp add: rcc_eval)

text \<open>
  Claim C4. The exponent the decoder produces is said never to exceed 9. The loop stops
  at 9, but the carry adds one without a check: the decoder returns the exponent 10 for
  10^12 ohms (base 1000 at exponent 9) and for 99.6 * 10^9 ohms (base 99.6 at exponent 9),
  and entry 10 of the multiplier table is gold, times 0.1. At 10^9 ohms the exponent
  is 8.
\<close>

theorem rcc_exponent_above_cap:
  "rcc_resistance_to_color (10 ^ 12) = Inr (1, 0, 10)
   \<and> rcc_suggested_colors (10 ^ 12) = Inr (''1 Brown'', ''0 Black'', ''10 Gold x0.1'')
   \<and> rcc_resistance_to_color 99600000000 = Inr (1, 0, 10)
   \<and> rcc_resistance_to_color (10 ^ 9) = Inr (1, 0, 8)"
  by (simp add: rcc_suggested_colors_def rcc_eval c_index_def digit_color_names_def
      multiplier_color_names_def)

text \<open>
  Claim C5, amended. Decoding 1.0 ohm yields digit 0, digit 1 and multiplier exponent 0:
  neither loop runs (the exponent is 0, so the base is not scaled up), and 1.5 converts
  to 1.
\<close>

theorem rcc_one_ohm:
  "rcc_resistance_to_color 1 = Inr (0, 1, 0)"
  by (simp add: rcc_eval)

text \<open>
  Claim C5 as stated gives the digits 1 and 0 at exponent 0 (which reads 10 ohms); the
  decoder does not return that.
\<close>

theorem rcc_one_ohm_counterexample:
  "rcc_resistance_to_color 1 \<noteq> Inr (1, 0, 0)"
  by (simp add: rcc_eval)

text \<open>
  Claim C8. Decoding 4700 ohms yields the digits 4 and 7 and the exponent 2, and encoding
  4, 7 and multiplier index 2 yields exactly 4700.
\<close>

theorem rcc_round_trip_4700:
  "rcc_resistance_to_color 4700 = Inr (4, 7, 2) \<and> rcc_color_to_resistance 4 7 2 = Inr 4700"
  by (simp add: rcc_eval rcc_color_to_resistance_def c_index_def multiplier_values_doubles
      double_round_of_int [of 4700, simplified])

text \<open>
  Claim C10. The decoder's indices are said to stay inside the tables for every strictly
  positive resistance. At 10^30 ohms the loops stop at exponent 9 with base 10^21, and the
  conversion of 10^21 + 0.5 to \<open>int\<close> is outside the range of \<open>int\<close>: the program has no
  defined digits to read the tables with. Lemma \<open>rcc_undefined_from_bound\<close> gives all
  the resistances where this happens, and lemma \<open>rcc_indices_when_defined\<close> covers the
  others.
\<close>

theorem rcc_huge_resistance_undefined:
  "rcc_divide_loop (10 ^ 30) 0 = (10 ^ 21, 9)
   \<and> double_to_int (10 ^ 21 + 0.5) = Inl IntConversionOutOfRange
   \<and> rcc_resistance_to_color (10 ^ 30) = Inl IntConversionOutOfRange
   \<and> rcc_suggested_colors (10 ^ 30) = Inl IntConversionOutOfRange"
  by (simp add: rcc_suggested_colors_def rcc_eval)

section \<open>Properties of the display\<close>


section \<open>Properties of the input reader\<close>

declare read_int.simps [simp del]

subsection \<open>One line of input\<close>

lemma fgets_chars_line:
  "newline \<notin> set l \<Longrightarrow> length l < n \<Longrightarrow> fgets_chars n (l @ newline # rest) = (l @ [newline], rest)"
proof (induction l arbitrary: n)
  case Nil
  then show ?case by (cases n) simp_all
next
  case (Cons c l)
  then show ?case by (cases n) auto
qed

lemma fgets_line:
  "text_line l \<Longrightarrow> fgets 64 (l @ newline # rest) = Some (l @ [newline], rest)"
  by (simp add: fgets_def text_line_def fgets_chars_line)

lemma not_isdigit_newline: "\<not> isdigit newline"
  by (simp add: isdigit_def)

lemma not_is_blank_newline: "\<not> is_blank newline"
  by (simp add: is_blank_def)

lemma isspace_newline: "isspace newline"
  by (simp add: isspace_def)

lemma strtol_newline:
  assumes "newline \<notin> set l"
  shows "strtol (l @ [newline]) = strtol l"
proof (cases "\<forall>c\<in>set l. isspace c")
  case True
  then have dw: "dropWhile isspace l = []" "dropWhile isspace (l @ [newline]) = []"
    by (simp_all add: isspace_newline)
  show ?thesis
    by (simp add: strtol_def dw del: dropWhile_append)
next
  case False
  then obtain c where c: "c \<in> set l" "\<not> isspace c" by blast
  have tw: "takeWhile isspace (l @ [newline]) = takeWhile isspace l"
    using c by (rule takeWhile_append1)
  have dw: "dropWhile isspace (l @ [newline]) = dropWhile isspace l @ [newline]"
    using c by (rule dropWhile_append1)
  obtain x xs where sub: "dropWhile isspace l = x # xs"
    using c by (cases "dropWhile isspace l") auto
  have td: "takeWhile isdigit (ys @ [newline]) = takeWhile isdigit ys" for ys
    by (rule takeWhile_tail) (rule not_isdigit_newline)
  show ?thesis
    unfolding strtol_def tw dw sub
    using td [of xs] td [of "x # xs"] by (simp add: Let_def)
qed

lemma strtol_endptr_le: "snd (strtol l) \<le> length l"
proof -
  have len: "length (takeWhile isspace l) + length (dropWhile isspace l) = length l"
    by (metis length_append takeWhile_dropWhile_id)
  have d: "length (takeWhile isdigit (drop k (dropWhile isspace l))) + k \<le> length (dropWhile isspace l)"
    if "k \<le> length (dropWhile isspace l)" for k
    using that length_takeWhile_le [of isdigit "drop k (dropWhile isspace l)"] by simp
  show ?thesis
  proof (cases "dropWhile isspace l")
    case Nil
    show ?thesis by (simp add: strtol_def Nil)
  next
    case (Cons x xs)
    show ?thesis
      using len d [of 0] d [of 1]
      by (auto simp: strtol_def Let_def Cons)
  qed
qed

text \<open>In a line of plain text the white space is spaces and tabs.\<close>

lemma text_line_white_space: "text_line l \<Longrightarrow> c \<in> set l \<Longrightarrow> isspace c = is_blank c"
  by (auto simp: text_line_def isspace_def is_blank_def)

lemma trailing_white_space:
  "text_line l \<Longrightarrow> dropWhile isspace (drop n l) = dropWhile is_blank (drop n l)"
  by (rule dropWhile_cong) (auto dest: in_set_dropD simp: text_line_white_space)

text \<open>The character the reader looks at after the number and the blanks.\<close>

lemma char_after_blanks:
  assumes l: "text_line l" and n: "n \<le> length l"
  shows "(char_at (l @ [newline]) (skip_blanks (l @ [newline]) n) \<noteq> newline
          \<and> char_at (l @ [newline]) (skip_blanks (l @ [newline]) n) \<noteq> NUL)
         = (dropWhile is_blank (drop n l) \<noteq> [])"
proof -
  define t where "t = drop n l"
  define k where "k = length (takeWhile is_blank t)"
  have sk: "skip_blanks (l @ [newline]) n = n + k"
    using n by (simp add: skip_blanks_def k_def t_def takeWhile_tail not_is_blank_newline)
  have lt: "length l = n + length t"
    using n by (simp add: t_def)
  show ?thesis
  proof (cases "dropWhile is_blank t = []")
    case True
    then have "\<forall>c\<in>set t. is_blank c"
      by simp
    then have "takeWhile is_blank t = t"
      by (simp add: takeWhile_eq_all_conv)
    then have "k = length t"
      unfolding k_def by (rule arg_cong)
    with lt have "char_at (l @ [newline]) (n + k) = newline"
      by (simp add: char_at_def nth_append)
    with True sk show ?thesis by (simp add: t_def)
  next
    case False
    then have "0 < length (dropWhile is_blank t)"
      by (simp del: dropWhile_eq_Nil_conv)
    moreover have "k + length (dropWhile is_blank t) = length t"
      unfolding k_def by (metis length_append takeWhile_dropWhile_id)
    ultimately have kl: "k < length t"
      by linarith
    then have "char_at (l @ [newline]) (n + k) = l ! (n + k)"
      using lt by (simp add: char_at_def nth_append)
    moreover have "l ! (n + k) \<in> set l"
      using kl lt by simp
    ultimately have "char_at (l @ [newline]) (n + k) \<noteq> newline
        \<and> char_at (l @ [newline]) (n + k) \<noteq> NUL"
      using l by (auto simp: text_line_def)
    with False sk show ?thesis by (simp add: t_def)
  qed
qed

lemma read_int_step:
  assumes l: "text_line l" and inp: "stdin w = l @ newline # rest"
  shows "read_int prompt mn mx w =
     (case line_verdict mn mx l of
        Valid v \<Rightarrow> (Returned v, w\<lparr>stdin := rest, stdout := stdout w @ [(''%s'', [ArgStr prompt])]\<rparr>)
      | _ \<Rightarrow> read_int prompt mn mx
               (w\<lparr>stdin := rest,
                  stdout := stdout w @ (''%s'', [ArgStr prompt]) # diagnostic mn mx l\<rparr>))"
proof -
  obtain v n where s: "strtol l = (v, n)"
    by (cases "strtol l")
  have s': "strtol (l @ [newline]) = (v, n)"
    using l s by (simp add: strtol_newline text_line_def)
  have n: "n \<le> length l"
    using strtol_endptr_le [of l] s by simp
  note c = char_after_blanks [OF l n]
  show ?thesis
    by (subst read_int.simps)
      (simp add: printf_def inp fgets_line [OF l] s s' c line_verdict_def diagnostic_def Let_def
        not_less trailing_white_space [OF l])
qed


lemma feed_Cons: "feed (l # ls) = l @ newline # feed ls"
  by (simp add: feed_def)

lemma feed_Nil: "feed [] = []"
  by (simp add: feed_def)

lemma transcript_Nil: "transcript prompt mn mx [] = [(''%s'', [ArgStr prompt])]"
  by (simp add: transcript_def)

lemma transcript_Cons:
  "transcript prompt mn mx (l # ls) =
     (''%s'', [ArgStr prompt]) # diagnostic mn mx l @ transcript prompt mn mx ls"
  by (simp add: transcript_def)

lemma valid_in_range: "line_verdict mn mx l = Valid v \<Longrightarrow> mn \<le> v \<and> v \<le> mx"
  by (auto simp: line_verdict_def Let_def split: prod.splits if_splits)

lemma read_int_rejects_then_returns:
  assumes pre: "\<forall>l\<in>set pre. text_line l \<and> \<not> is_valid mn mx l"
    and good: "text_line good" "line_verdict mn mx good = Valid v"
    and inp: "stdin w = feed (pre @ [good]) @ rest"
  shows "read_int prompt mn mx w =
    (Returned v, w\<lparr>stdin := rest, stdout := stdout w @ transcript prompt mn mx pre\<rparr>)"
  using pre inp
proof (induction pre arbitrary: w)
  case Nil
  then have "stdin w = good @ newline # rest"
    by (simp add: feed_Cons feed_Nil)
  from read_int_step [OF good(1) this, of prompt mn mx] show ?case
    by (simp add: good(2) transcript_Nil)
next
  case (Cons l pre)
  let ?w = "w\<lparr>stdin := feed (pre @ [good]) @ rest,
              stdout := stdout w @ (''%s'', [ArgStr prompt]) # diagnostic mn mx l\<rparr>"
  from Cons.prems have l: "text_line l" and bad: "\<not> is_valid mn mx l"
    and pre: "\<forall>l\<in>set pre. text_line l \<and> \<not> is_valid mn mx l"
    by simp_all
  from Cons.prems have "stdin w = l @ newline # (feed (pre @ [good]) @ rest)"
    by (simp add: feed_Cons)
  from read_int_step [OF l this, of prompt mn mx] bad
  have "read_int prompt mn mx w = read_int prompt mn mx ?w"
    by (cases "line_verdict mn mx l") (simp_all add: is_valid_def)
  also have "\<dots> = (Returned v, ?w\<lparr>stdin := rest, stdout := stdout ?w @ transcript prompt mn mx pre\<rparr>)"
    by (rule Cons.IH [OF pre]) simp
  finally show ?case
    by (simp add: transcript_Cons)
qed

subsection \<open>The retry loop\<close>

text \<open>Whatever the input, a value the reader returns lies in the range asked for.\<close>

lemma read_int_result_in_range:
  "read_int prompt mn mx w = (Returned v, w') \<Longrightarrow> mn \<le> v \<and> v \<le> mx"
proof (induction prompt mn mx w rule: read_int.induct)
  case (1 prompt mn mx w)
  let ?w = "printf ''%s'' [ArgStr prompt] w"
  show ?case
  proof (cases "fgets 64 (stdin ?w)")
    case None
    with "1.prems" show ?thesis
      by (subst (asm) read_int.simps) simp
  next
    case (Some a)
    obtain buf rest where a: "a = (buf, rest)" by (cases a)
    obtain val endptr where s: "strtol buf = (val, endptr)" by (cases "strtol buf")
    note ih = "1.IH" [OF refl Some a [symmetric] refl refl s [symmetric]]
    let ?w' = "?w\<lparr>stdin := rest\<rparr>"
    let ?bad = "char_at buf (skip_blanks buf endptr) \<noteq> newline
        \<and> char_at buf (skip_blanks buf endptr) \<noteq> NUL"
    consider (no_integer) "endptr = 0"
      | (unexpected) "endptr \<noteq> 0" "?bad"
      | (out_of_range) "endptr \<noteq> 0" "\<not> ?bad" "val < mn \<or> mx < val"
      | (accepted) "endptr \<noteq> 0" "\<not> ?bad" "\<not> (val < mn \<or> mx < val)"
      by blast
    then show ?thesis
    proof cases
      case no_integer
      have "read_int prompt mn mx w =
          read_int prompt mn mx (printf (''Please enter an integer.'' @ [newline]) [] ?w')"
        by (subst read_int.simps) (simp add: Some a s no_integer)
      with "1.prems" ih(1) [OF no_integer] show ?thesis by simp
    next
      case unexpected
      have "read_int prompt mn mx w =
          read_int prompt mn mx (printf (''Unexpected characters. Try again.'' @ [newline]) [] ?w')"
        using unexpected by (subst read_int.simps) (simp add: Some a s)
      with "1.prems" ih(2) [OF unexpected(1) refl unexpected(2)] show ?thesis by simp
    next
      case out_of_range
      have "read_int prompt mn mx w =
          read_int prompt mn mx
            (printf (''Value must be between %d and %d.'' @ [newline]) [ArgInt mn, ArgInt mx] ?w')"
        using out_of_range by (subst read_int.simps) (auto simp: Some a s)
      with "1.prems" ih(3) [OF out_of_range(1) refl out_of_range(2) out_of_range(3)]
      show ?thesis by simp
    next
      case accepted
      have "read_int prompt mn mx w = (Returned val, ?w')"
        using accepted by (subst read_int.simps) (auto simp: Some a s)
      with "1.prems" accepted(3) show ?thesis by simp
    qed
  qed
qed

text \<open>
  When the input ends after lines that were all rejected, the reader ends the process
  with status 1.
\<close>

lemma read_int_exits_at_end_of_input:
  assumes pre: "\<forall>l\<in>set pre. text_line l \<and> \<not> is_valid mn mx l"
    and inp: "stdin w = feed pre"
  shows "fst (read_int prompt mn mx w) = Exited 1"
  using pre inp
proof (induction pre arbitrary: w)
  case Nil
  then show ?case
    by (subst read_int.simps) (simp add: feed_Nil printf_def fgets_def)
next
  case (Cons l pre)
  let ?w = "w\<lparr>stdin := feed pre,
              stdout := stdout w @ (''%s'', [ArgStr prompt]) # diagnostic mn mx l\<rparr>"
  from Cons.prems have l: "text_line l" and bad: "\<not> is_valid mn mx l"
    and pre: "\<forall>l\<in>set pre. text_line l \<and> \<not> is_valid mn mx l"
    by simp_all
  from Cons.prems have "stdin w = l @ newline # feed pre"
    by (simp add: feed_Cons)
  from read_int_step [OF l this, of prompt mn mx] bad
  have "read_int prompt mn mx w = read_int prompt mn mx ?w"
    by (cases "line_verdict mn mx l") (simp_all add: is_valid_def)
  moreover have "fst (read_int prompt mn mx ?w) = Exited 1"
    by (rule Cons.IH [OF pre]) simp
  ultimately show ?case by simp
qed

text \<open>
  On lines of plain text the reader does what section 4.1 of the specification says. The
  input holds first the lines \<open>pre\<close>, none of them valid, then the line \<open>good\<close>, which holds
  an integer \<open>v\<close> in \<open>[min, max]\<close> followed by white space only, then anything. Then
  \<open>read_int\<close> returns \<open>v\<close> to its caller (it does not exit), \<open>v\<close> is in \<open>[min, max]\<close>, it has
  read exactly the lines up to \<open>good\<close>, and it has printed the prompt and the diagnostic of
  each rejected line, in order, and the prompt once more.
\<close>

lemma read_int_first_valid:
  assumes "\<forall>l\<in>set pre. text_line l \<and> \<not> is_valid mn mx l"
    and "text_line good" and "line_verdict mn mx good = Valid v"
    and "stdin w = feed (pre @ [good]) @ rest"
  shows "read_int prompt mn mx w =
      (Returned v, w\<lparr>stdin := rest, stdout := stdout w @ transcript prompt mn mx pre\<rparr>)
    \<and> mn \<le> v \<and> v \<le> mx"
  using read_int_rejects_then_returns [OF assms] valid_in_range [OF assms(3)] by simp

text \<open>
  The lines \<open>abc\<close>, \<open>15\<close>, \<open>5\<close> with the range 0 to 9: the first two attempts are rejected,
  one as no integer and one as out of range, and the third returns 5.
\<close>

lemma read_int_abc_15_5:
  "read_int ''Select: '' 0 9
        \<lparr>stdin = feed [''abc'', ''15'', ''5''], stdout = [], calc_log = [], log_cannot_open = False\<rparr>
      = (Returned 5,
         \<lparr>stdin = [],
          stdout = [(''%s'', [ArgStr ''Select: '']), (''Please enter an integer.'' @ [newline], []),
                    (''%s'', [ArgStr ''Select: '']),
                    (''Value must be between %d and %d.'' @ [newline], [ArgInt 0, ArgInt 9]),
                    (''%s'', [ArgStr ''Select: ''])],
          calc_log = [], log_cannot_open = False\<rparr>)"
proof -
  have pre: "\<forall>l\<in>set [''abc'', ''15'']. text_line l \<and> \<not> is_valid 0 9 l"
    by code_simp
  have good: "text_line ''5''" "line_verdict 0 9 ''5'' = Valid 5"
    by code_simp+
  have tr: "transcript ''Select: '' 0 9 [''abc'', ''15''] =
      [(''%s'', [ArgStr ''Select: '']), (''Please enter an integer.'' @ [newline], []),
       (''%s'', [ArgStr ''Select: '']),
       (''Value must be between %d and %d.'' @ [newline], [ArgInt 0, ArgInt 9]),
       (''%s'', [ArgStr ''Select: ''])]"
    by code_simp
  from read_int_first_valid [OF pre good, of _ "[]" "''Select: ''"] tr
  show ?thesis by simp
qed

text \<open>
  Claim C7. The reader is said to return the integer of the first line that holds an
  integer with no characters but white space after it, in the range. On three kinds of
  line it judges otherwise, each time with the range 0 to 9 and the line \<open>7\<close> next.

  The line \<open>5\<close> and a carriage return (a line that ends in CR LF) has only white space
  after the integer and is valid; the reader skips spaces and tabs only, prints
  \<open>Unexpected characters. Try again.\<close> and returns 7 from the next line.

  The line \<open>5\<close>, 62 spaces and \<open>x\<close> has a character after the integer and is not valid; the
  reader takes the first 63 characters of the input, finds 5 followed by spaces, and
  returns 5. The line \<open>5\<close>, \<open>NUL\<close>, \<open>x\<close> is not valid either; the reader stops at the \<open>NUL\<close>
  and returns 5.
\<close>

theorem read_int_misjudges_lines:
  "line_verdict 0 9 (''5'' @ [CHR 0x0D]) = Valid 5
   \<and> read_int ''Select: '' 0 9
        \<lparr>stdin = feed [''5'' @ [CHR 0x0D], ''7''], stdout = [], calc_log = [],
         log_cannot_open = False\<rparr>
      = (Returned 7,
         \<lparr>stdin = [],
          stdout = [(''%s'', [ArgStr ''Select: '']),
                    (''Unexpected characters. Try again.'' @ [newline], []),
                    (''%s'', [ArgStr ''Select: ''])],
          calc_log = [], log_cannot_open = False\<rparr>)
   \<and> line_verdict 0 9 (''5'' @ replicate 62 (CHR '' '') @ ''x'') = TrailingCharacters
   \<and> fst (read_int ''Select: '' 0 9
        \<lparr>stdin = feed [''5'' @ replicate 62 (CHR '' '') @ ''x'', ''7''], stdout = [],
         calc_log = [], log_cannot_open = False\<rparr>) = Returned 5
   \<and> line_verdict 0 9 (''5'' @ [NUL] @ ''x'') = TrailingCharacters
   \<and> fst (read_int ''Select: '' 0 9
        \<lparr>stdin = feed [''5'' @ [NUL] @ ''x'', ''7''], stdout = [],
         calc_log = [], log_cannot_open = False\<rparr>) = Returned 5"
  by code_simp

section \<open>Properties of saving\<close>

lemma fgets_first_char:
  "s \<noteq> [] \<Longrightarrow> fgets (Suc (Suc n)) s = Some (buf, rest) \<Longrightarrow> char_at buf 0 = hd s"
  by (cases s) (auto simp: fgets_def char_at_def split_beta split: if_splits)

text \<open>
  Claim C9, amended. \<open>ask_and_save\<close> always returns to its caller. It adds the summary and
  a newline at the end of the log exactly when there is input, its first character is
  \<open>y\<close> or \<open>Y\<close>, and the log file can be opened; in every other case, the end of the input
  included, the log is unchanged.
\<close>

theorem ask_and_save_log:
  "fst (ask_and_save summary w) = Returned ()
   \<and> calc_log (snd (ask_and_save summary w)) =
       (if stdin w \<noteq> [] \<and> (hd (stdin w) = CHR ''y'' \<or> hd (stdin w) = CHR ''Y'')
           \<and> \<not> log_cannot_open w
        then calc_log w @ summary @ [newline] else calc_log w)"
proof (cases "stdin w = []")
  case True
  then show ?thesis
    by (simp add: ask_and_save_def printf_def fgets_def)
next
  case False
  then obtain buf rest where f: "fgets 16 (stdin w) = Some (buf, rest)"
    by (cases "fgets_chars 15 (stdin w)") (simp add: fgets_def)
  have "char_at buf 0 = hd (stdin w)"
    using fgets_first_char [OF False, of 14 buf rest] f by simp
  with False f show ?thesis
    by (simp add: ask_and_save_def printf_def Let_def)
qed

text \<open>
  Claim C9 as stated, with the answer alone deciding, fails when the log file cannot be
  opened: the answer is \<open>y\<close> and the log stays as it was.
\<close>

theorem ask_and_save_unopenable_counterexample:
  "hd (stdin \<lparr>stdin = ''y'' @ [newline], stdout = [], calc_log = ''old'' @ [newline],
         log_cannot_open = True\<rparr>) = CHR ''y''
   \<and> ask_and_save ''R=4700''
        \<lparr>stdin = ''y'' @ [newline], stdout = [], calc_log = ''old'' @ [newline],
         log_cannot_open = True\<rparr>
     = (Returned (),
        \<lparr>stdin = [],
         stdout = [(newline # ''Save this result to '' @ [CHR 0x22] @ ''%s'' @ [CHR 0x22]
                      @ ''? (y/n): '', [ArgStr ''calc_log.txt'']),
                   (''Could not open log file.'' @ [newline], [])],
         calc_log = ''old'' @ [newline], log_cannot_open = True\<rparr>)"
  by code_simp

end
